theory Spec2Isabelle
  imports Main
begin

section \<open>Duplex file-descriptor transports (cockpit/transports.py)\<close>

text \<open>
  A shallow embedding of the classes \<^verbatim>\<open>_Transport\<close>, \<^verbatim>\<open>SubprocessTransport\<close>,
  \<^verbatim>\<open>SocketTransport\<close>, \<^verbatim>\<open>StdioTransport\<close> and \<^verbatim>\<open>Spooler\<close>.

  \<^item> A transport object is a record of its attributes, together with the part of the event
    loop it touches (the sets of descriptors registered for reading and for writing) and two
    logs: the callbacks made on the protocol, in order, and the effects on the kernel side of
    the write direction (bytes accepted, half-close).
  \<^item> Every method returns an outcome: it returns, or it raises, and in both cases it leaves a
    state behind, since Python does not roll back the attributes assigned before a raise.
  \<^item> What the kernel answers to a system call is an argument of the method: the number of
    bytes accepted, a broken pipe, or another exception.
  \<^item> The protocol's callbacks are recorded, not run: a protocol that calls back into the
    transport from inside a callback is outside this model. The value returned by
    \<^verbatim>\<open>eof_received()\<close> is an argument.
  \<^item> \<^verbatim>\<open>assert\<close> raises \<^verbatim>\<open>AssertionError\<close> (the interpreter is not run with -O).
\<close>

subsection \<open>Data\<close>

type_synonym bytes = string

datatype exn =
    AssertionError | NotImplementedError | RuntimeError | AttributeError
  | TypeError | IndexError | OSError | BlockingIOError | StructError

text \<open>The callbacks of the protocol (and of \<^verbatim>\<open>SubprocessProtocol\<close>).\<close>

datatype event =
    ConnectionMade
  | DataReceived bytes
  | EofReceived
  | ConnectionLost "exn option"
  | PauseWriting
  | ResumeWriting
  | ProcessExited

text \<open>What the kernel sees on the write direction.\<close>

datatype os_effect =
    Accepted bytes      \<comment> \<open>bytes taken by \<^verbatim>\<open>os.write\<close> / \<^verbatim>\<open>os.writev\<close>\<close>
  | StdinClosed         \<comment> \<open>\<^verbatim>\<open>self._process.stdin.close()\<close>\<close>
  | SocketShutdownWR    \<comment> \<open>\<^verbatim>\<open>self._socket.shutdown(socket.SHUT_WR)\<close>\<close>

text \<open>The answer of the kernel to \<^verbatim>\<open>os.write\<close> and \<^verbatim>\<open>os.writev\<close>, and to \<^verbatim>\<open>os.read\<close>.\<close>

datatype write_result = Wrote nat | BrokenPipe | Failed exn

datatype read_result = ReadData bytes | ReadIOError

text \<open>
  \<^verbatim>\<open>subprocess.Popen\<close> objects: the attributes \<^verbatim>\<open>stdin\<close>, \<^verbatim>\<open>stdout\<close> and
  \<^verbatim>\<open>stderr\<close> hold a stream (here: its descriptor) or \<^verbatim>\<open>None\<close>.
\<close>

record process =
  pid :: int
  stdin :: "int option"
  stdout :: "int option"
  stderr :: "int option"

text \<open>The class of the object: it selects the overridden methods.\<close>

datatype endpoint =
    BaseTransport
  | SubprocessTransport
  | SocketTransport
  | StdioTransport

record spooler =
  sp_fd :: int
  contents :: "bytes list"

record transport =
  endpoint :: endpoint
  process :: "process option"   \<comment> \<open>\<^verbatim>\<open>_process\<close>; \<open>None\<close> where the attribute is not set\<close>
  queue :: "bytes list option"
  in_fd :: int
  out_fd :: int
  closing :: bool
  is_reading :: bool
  eof :: bool
  eio_is_eof :: bool
  pty_fd :: "int option"
  stderr_spooler :: "spooler option"
  returncode :: "int option"
  readers :: "int set"
  writers :: "int set"
  trace :: "event list"
  oslog :: "os_effect list"

datatype outcome = Returns transport | Raises exn transport

fun state_of :: "outcome \<Rightarrow> transport" where
  "state_of (Returns s) = s"
| "state_of (Raises e s) = s"

fun raised :: "outcome \<Rightarrow> exn option" where
  "raised (Returns s) = None"
| "raised (Raises e s) = Some e"

subsection \<open>The read side\<close>

definition pause_reading :: "transport \<Rightarrow> transport" where
  "pause_reading s =
     (if is_reading s
      then s\<lparr>readers := readers s - {in_fd s}, is_reading := False\<rparr>
      else s)"

definition resume_reading :: "transport \<Rightarrow> transport" where
  "resume_reading s =
     (if \<not> is_reading s \<and> in_fd s \<noteq> -1
      then s\<lparr>readers := insert (in_fd s) (readers s), is_reading := True\<rparr>
      else s)"

definition close_reader :: "transport \<Rightarrow> transport" where
  "close_reader s = (pause_reading s)\<lparr>in_fd := -1\<rparr>"

subsection \<open>The write queue\<close>

definition remove_write_queue :: "transport \<Rightarrow> transport" where
  "remove_write_queue s =
     (if queue s \<noteq> None
      then s\<lparr>trace := trace s @ [ResumeWriting],
             writers := writers s - {out_fd s},
             queue := None\<rparr>
      else s)"

definition create_write_queue :: "transport \<Rightarrow> bytes \<Rightarrow> outcome" where
  "create_write_queue s data =
     (if queue s \<noteq> None then Raises AssertionError s
      else Returns (s\<lparr>writers := insert (out_fd s) (writers s),
                      queue := Some [data],
                      trace := trace s @ [PauseWriting]\<rparr>))"

definition abort :: "transport \<Rightarrow> transport" where
  "abort s =
     (let s1 = s\<lparr>closing := True\<rparr>;
          s2 = close_reader s1;
          s3 = remove_write_queue s2
      in s3\<lparr>trace := trace s3 @ [ConnectionLost None]\<rparr>)"

definition close :: "transport \<Rightarrow> transport" where
  "close s =
     (if closing s then s
      else let s1 = close_reader (s\<lparr>closing := True\<rparr>)
           in if queue s1 \<noteq> None then s1 else abort s1)"

subsection \<open>Half-close\<close>

definition can_write_eof :: "transport \<Rightarrow> exn + bool" where
  "can_write_eof s =
     (case endpoint s of
        BaseTransport \<Rightarrow> Inl NotImplementedError
      | SubprocessTransport \<Rightarrow>
          (case process s of
             None \<Rightarrow> Inl AttributeError
           | Some p \<Rightarrow> Inr (stdin p \<noteq> None))
      | SocketTransport \<Rightarrow> Inr True
      | StdioTransport \<Rightarrow> Inr False)"

definition write_eof_now :: "transport \<Rightarrow> outcome" where
  "write_eof_now s =
     (case endpoint s of
        BaseTransport \<Rightarrow> Raises NotImplementedError s
      | SubprocessTransport \<Rightarrow>
          (case process s of
             None \<Rightarrow> Raises AttributeError s
           | Some p \<Rightarrow>
               if stdin p \<noteq> None
               then Returns (s\<lparr>oslog := oslog s @ [StdinClosed], out_fd := -1\<rparr>)
               else Returns s)
      | SocketTransport \<Rightarrow> Returns (s\<lparr>oslog := oslog s @ [SocketShutdownWR]\<rparr>)
      | StdioTransport \<Rightarrow> Raises RuntimeError s)"

definition write_eof :: "transport \<Rightarrow> outcome" where
  "write_eof s =
     (if eof s then Raises AssertionError s
      else let s1 = s\<lparr>eof := True\<rparr>
           in if queue s1 = None then write_eof_now s1 else Returns s1)"

subsection \<open>Writing\<close>

definition transport_write :: "transport \<Rightarrow> bytes \<Rightarrow> write_result \<Rightarrow> outcome" where
  "transport_write s data r =
     (if closing s then Raises AssertionError s
      else if eof s then Raises AssertionError s
      else case queue s of
        Some q \<Rightarrow> Returns (s\<lparr>queue := Some (q @ [data])\<rparr>)
      | None \<Rightarrow>
          (case r of
             BrokenPipe \<Rightarrow> Returns (abort s)
           | Failed e \<Rightarrow> Raises e s
           | Wrote n \<Rightarrow>
               (let s1 = s\<lparr>oslog := oslog s @ [Accepted (take n data)]\<rparr>
                in if n \<noteq> length data
                   then create_write_queue s1 (drop n data)
                   else Returns s1)))"

text \<open>
  The loop of \<^verbatim>\<open>_write_ready\<close> over the deque. The result is the deque it leaves and
  whether the loop was left by \<^verbatim>\<open>break\<close>; \<^verbatim>\<open>popleft\<close> on an empty deque raises
  \<^verbatim>\<open>IndexError\<close>. The \<^verbatim>\<open>else\<close> branch of the \<^verbatim>\<open>while\<close> runs when the loop ends
  because \<^verbatim>\<open>n_bytes\<close> is zero.
\<close>

fun consume :: "nat \<Rightarrow> bytes list \<Rightarrow> exn + (bool \<times> bytes list)" where
  "consume 0 q = Inr (False, q)"
| "consume (Suc n) [] = Inl IndexError"
| "consume (Suc n) (block # q) =
     (if length block > Suc n then Inr (True, drop (Suc n) block # q)
      else consume (Suc n - length block) q)"

text \<open>
  \<^verbatim>\<open>_write_ready\<close>. The gather-write is written \<^verbatim>\<open>os.writev(self._queue)\<close>, without
  the descriptor; \<^verbatim>\<open>os.writev\<close> takes two arguments, so the interpreter answers this
  call with \<^verbatim>\<open>TypeError\<close>, which is \<^term>\<open>Failed TypeError\<close> below. The model keeps the
  answer of the call an argument, so that the rest of the method is described for every
  answer: \<^term>\<open>Wrote n\<close> is what the kernel answers once the descriptor is passed, and then
  it has taken the first \<open>n\<close> bytes of the blocks in order.

  \<^verbatim>\<open>self._consider_closing()\<close>: no class of the module defines it, nor does
  \<^verbatim>\<open>asyncio.Transport\<close>, so the attribute lookup raises.
\<close>

definition consider_closing :: "transport \<Rightarrow> outcome" where
  "consider_closing s = Raises AttributeError s"

definition write_ready :: "transport \<Rightarrow> write_result \<Rightarrow> outcome" where
  "write_ready s r =
     (case queue s of
        None \<Rightarrow> Raises AssertionError s
      | Some q \<Rightarrow>
          (case r of
             BrokenPipe \<Rightarrow> Returns (abort s)
           | Failed e \<Rightarrow> Raises e s
           | Wrote n \<Rightarrow>
               (let s1 = s\<lparr>oslog := oslog s @ [Accepted (take n (concat q))]\<rparr>
                in case consume n q of
                     Inl e \<Rightarrow> Raises e (s1\<lparr>queue := Some []\<rparr>)
                   | Inr (True, q') \<Rightarrow> Returns (s1\<lparr>queue := Some q'\<rparr>)
                   | Inr (False, q') \<Rightarrow>
                       (let s2 = remove_write_queue (s1\<lparr>queue := Some q'\<rparr>)
                        in if eof s2
                           then (case write_eof_now s2 of
                                   Raises e s3 \<Rightarrow> Raises e s3
                                 | Returns s3 \<Rightarrow>
                                     (case consider_closing s3 of
                                        Raises e s4 \<Rightarrow> Raises e s4
                                      | Returns s4 \<Rightarrow>
                                          if closing s4 then Returns (abort s4)
                                          else Returns s4))
                           else if closing s2 then Returns (abort s2)
                           else Returns s2))))"

subsection \<open>Reading\<close>

definition read_ready :: "transport \<Rightarrow> read_result \<Rightarrow> bool \<Rightarrow> outcome" where
  "read_ready s r keep_open =
     (case (case r of
              ReadData d \<Rightarrow> Inr d
            | ReadIOError \<Rightarrow> if \<not> eio_is_eof s then Inl OSError else Inr []) of
        Inl e \<Rightarrow> Raises e s
      | Inr data \<Rightarrow>
          if data \<noteq> []
          then Returns (s\<lparr>trace := trace s @ [DataReceived data]\<rparr>)
          else let s1 = close_reader s;
                   s2 = s1\<lparr>trace := trace s1 @ [EofReceived]\<rparr>
               in if \<not> keep_open then Returns (close s2) else Returns s2)"

subsection \<open>Construction\<close>

text \<open>
  \<^verbatim>\<open>_Transport.__init__\<close> runs on the object under construction: a subclass has already
  assigned some attributes.
\<close>

definition transport_init :: "transport \<Rightarrow> int \<Rightarrow> int \<Rightarrow> transport" where
  "transport_init self i_fd o_fd =
     resume_reading
       (self\<lparr>queue := None, is_reading := False, eof := False, closing := False,
              in_fd := i_fd, out_fd := o_fd,
              trace := trace self @ [ConnectionMade]\<rparr>)"

text \<open>
  An object before any \<^verbatim>\<open>__init__\<close> has run: the class attributes
  (\<^verbatim>\<open>_eio_is_eof = False\<close>, \<^verbatim>\<open>_pty_fd = None\<close>, \<^verbatim>\<open>_returncode = None\<close>), the event loop
  it is given, and empty logs.
\<close>

definition blank :: "endpoint \<Rightarrow> int set \<Rightarrow> int set \<Rightarrow> transport" where
  "blank k rd wr =
     \<lparr>endpoint = k, process = None, queue = None, in_fd = -1, out_fd = -1, closing = False,
      is_reading = False, eof = False, eio_is_eof = False, pty_fd = None,
      stderr_spooler = None, returncode = None, readers = rd, writers = wr,
      trace = [], oslog = []\<rparr>"

subsection \<open>Spooler\<close>

text \<open>
  \<^verbatim>\<open>Spooler.__init__\<close> duplicates the descriptor (the duplicate is what \<^verbatim>\<open>os.dup\<close>
  returns) and registers it with the loop.
\<close>

definition spooler_init :: "int set \<Rightarrow> int \<Rightarrow> spooler \<times> int set" where
  "spooler_init rd dup_fd = (\<lparr>sp_fd = dup_fd, contents = []\<rparr>, insert dup_fd rd)"

definition spooler_close :: "spooler \<Rightarrow> int set \<Rightarrow> spooler \<times> int set" where
  "spooler_close sp rd =
     (if sp_fd sp \<noteq> -1 then (sp\<lparr>sp_fd := -1\<rparr>, rd - {sp_fd sp}) else (sp, rd))"

definition spooler_read_ready :: "spooler \<Rightarrow> int set \<Rightarrow> bytes \<Rightarrow> spooler \<times> int set" where
  "spooler_read_ready sp rd data =
     (if data \<noteq> [] then (sp\<lparr>contents := contents sp @ [data]\<rparr>, rd)
      else spooler_close sp rd)"

text \<open>
  \<^verbatim>\<open>Spooler.get\<close>: the list holds what the successive reads return while \<^verbatim>\<open>select\<close>
  reports the descriptor ready; \<^verbatim>\<open>_is_ready\<close> is false once the list is used up or the
  descriptor is \<open>-1\<close>.
\<close>

fun spooler_drain :: "spooler \<Rightarrow> int set \<Rightarrow> bytes list \<Rightarrow> spooler \<times> int set" where
  "spooler_drain sp rd [] = (sp, rd)"
| "spooler_drain sp rd (d # ds) =
     (if sp_fd sp = -1 then (sp, rd)
      else case spooler_read_ready sp rd d of (sp', rd') \<Rightarrow> spooler_drain sp' rd' ds)"

definition spooler_get :: "spooler \<Rightarrow> int set \<Rightarrow> bytes list \<Rightarrow> bytes \<times> spooler \<times> int set" where
  "spooler_get sp rd avail =
     (case spooler_drain sp rd avail of (sp', rd') \<Rightarrow> (concat (contents sp'), sp', rd'))"

subsection \<open>SubprocessTransport\<close>

definition get_stderr :: "transport \<Rightarrow> bytes list \<Rightarrow> bytes \<times> transport" where
  "get_stderr s avail =
     (case stderr_spooler s of
        Some sp \<Rightarrow>
          (case spooler_get sp (readers s) avail of
             (b, sp', rd') \<Rightarrow> (b, s\<lparr>stderr_spooler := Some sp', readers := rd'\<rparr>))
      | None \<Rightarrow> ([], s))"

definition exited :: "transport \<Rightarrow> int \<Rightarrow> int \<Rightarrow> outcome" where
  "exited s p code =
     (case process s of
        None \<Rightarrow> Raises AttributeError s
      | Some pr \<Rightarrow>
          if pid pr \<noteq> p then Raises AssertionError s
          else Returns (s\<lparr>returncode := Some code, trace := trace s @ [ProcessExited]\<rparr>))"

text \<open>
  \<^verbatim>\<open>set_window_size\<close>: \<^verbatim>\<open>struct.pack('2H4x', rows, cols)\<close> raises \<^verbatim>\<open>struct.error\<close>
  unless both numbers fit an unsigned 16-bit field; the \<^verbatim>\<open>ioctl\<close> leaves the object as
  it is.
\<close>

definition set_window_size :: "transport \<Rightarrow> int \<Rightarrow> int \<Rightarrow> outcome" where
  "set_window_size s rows cols =
     (if pty_fd s = None then Raises AssertionError s
      else if 0 \<le> rows \<and> rows < 65536 \<and> 0 \<le> cols \<and> cols < 65536 then Returns s
      else Raises StructError s)"

text \<open>
  The values of the keyword arguments that matter to \<^verbatim>\<open>subprocess.Popen\<close> here, and the
  dictionary \<^verbatim>\<open>**kwargs\<close>.
\<close>

datatype kwarg = PIPE | Fd int | OtherValue

type_synonym kwargs = "string \<rightharpoonup> kwarg"

text \<open>What the operating system hands out while the object is built.\<close>

record os_env =
  openpty_fds :: "int \<times> int"   \<comment> \<open>\<^verbatim>\<open>os.openpty()\<close>\<close>
  pipe_stdin :: int             \<comment> \<open>\<^verbatim>\<open>fileno()\<close> of the streams of a \<^verbatim>\<open>Popen\<close> with pipes\<close>
  pipe_stdout :: int
  pipe_stderr :: int
  child_pid :: int
  dup_fd :: int                 \<comment> \<open>\<^verbatim>\<open>os.dup\<close> in \<^verbatim>\<open>Spooler.__init__\<close>\<close>

text \<open>
  \<^verbatim>\<open>subprocess.Popen(args, k1=v1, ..., **kwargs)\<close>, from the standard library: a keyword
  given both explicitly and in \<^verbatim>\<open>kwargs\<close> is a \<^verbatim>\<open>TypeError\<close> of the call; the attribute
  \<^verbatim>\<open>stdin\<close> (\<^verbatim>\<open>stdout\<close>, \<^verbatim>\<open>stderr\<close>) of the result is a stream when that argument
  was \<^verbatim>\<open>PIPE\<close> and \<^verbatim>\<open>None\<close> otherwise.
\<close>

definition popen :: "os_env \<Rightarrow> (string \<times> kwarg) list \<Rightarrow> kwargs \<Rightarrow> exn + process" where
  "popen env explicit kw =
     (if list_ex (\<lambda>(k, v). kw k \<noteq> None) explicit then Inl TypeError
      else let a = kw ++ map_of explicit
           in Inr \<lparr>pid = child_pid env,
                   stdin = (if a ''stdin'' = Some PIPE then Some (pipe_stdin env) else None),
                   stdout = (if a ''stdout'' = Some PIPE then Some (pipe_stdout env) else None),
                   stderr = (if a ''stderr'' = Some PIPE then Some (pipe_stderr env) else None)\<rparr>)"

text \<open>
  \<^verbatim>\<open>SubprocessTransport.__init__\<close>. An exception leaves no object behind, so the result
  is the exception or the transport. \<open>window\<close> is the pair of \<^verbatim>\<open>rows\<close> and \<^verbatim>\<open>cols\<close>.
\<close>

definition attach_stderr :: "os_env \<Rightarrow> transport \<Rightarrow> transport" where
  "attach_stderr env self =
     (case process self of
        None \<Rightarrow> self
      | Some p \<Rightarrow>
          (case stderr p of
             Some fd \<Rightarrow>
               (case spooler_init (readers self) (dup_fd env) of
                  (sp, rd') \<Rightarrow> self\<lparr>stderr_spooler := Some sp, readers := rd'\<rparr>)
           | None \<Rightarrow> self\<lparr>stderr_spooler := None\<rparr>))"

definition subprocess_transport_init ::
  "int set \<Rightarrow> int set \<Rightarrow> os_env \<Rightarrow> bool \<Rightarrow> (int \<times> int) option \<Rightarrow> kwargs \<Rightarrow> exn + transport"
where
  "subprocess_transport_init rd wr env pty window kw =
     (let self = blank SubprocessTransport rd wr in
      if pty then
        (let master_fd = fst (openpty_fds env);
             session_fd = snd (openpty_fds env);
             self1 = self\<lparr>pty_fd := Some master_fd\<rparr>
         in (case (case window of
                     None \<Rightarrow> Returns self1
                   | Some (rows, cols) \<Rightarrow> set_window_size self1 rows cols) of
               Raises e s \<Rightarrow> Inl e
             | Returns self2 \<Rightarrow>
                 (case popen env [(''stdin'', Fd session_fd), (''stdout'', Fd session_fd),
                                  (''start_new_session'', OtherValue)]
                             (kw(''stderr'' \<mapsto> Fd session_fd)) of
                    Inl e \<Rightarrow> Inl e
                  | Inr p \<Rightarrow>
                      Inr (transport_init
                             (attach_stderr env (self2\<lparr>process := Some p, eio_is_eof := True\<rparr>))
                             master_fd master_fd))))
      else
        (case popen env [(''stdin'', PIPE), (''stdout'', PIPE)] kw of
           Inl e \<Rightarrow> Inl e
         | Inr p \<Rightarrow>
             (case stdin p of
                None \<Rightarrow> Inl AssertionError
              | Some o_fd \<Rightarrow>
                  (case stdout p of
                     None \<Rightarrow> Inl AssertionError
                   | Some i_fd \<Rightarrow>
                       Inr (transport_init (attach_stderr env (self\<lparr>process := Some p\<rparr>))
                              i_fd o_fd)))))"

definition socket_transport_init :: "int set \<Rightarrow> int set \<Rightarrow> int \<Rightarrow> transport" where
  "socket_transport_init rd wr fileno =
     transport_init (blank SocketTransport rd wr) fileno fileno"

definition stdio_transport_init :: "int set \<Rightarrow> int set \<Rightarrow> transport" where
  "stdio_transport_init rd wr = transport_init (blank StdioTransport rd wr) 0 1"

subsection \<open>Runs\<close>

text \<open>
  What can happen to a transport: the consumer calls a method, or the loop calls back. The
  loop calls \<^verbatim>\<open>_read_ready\<close> only while the in-fd is registered for reading and
  \<^verbatim>\<open>_write_ready\<close> only while the out-fd is registered for writing; the child watcher
  calls \<^verbatim>\<open>_exited\<close> with the pid of the process, once.
\<close>

datatype op =
    Write bytes write_result
  | WriteEof
  | PauseReading
  | ResumeReading
  | Close
  | Abort
  | ReadReady read_result bool
  | WriteReady write_result
  | Exited int

fun fire :: "transport \<Rightarrow> op \<Rightarrow> outcome" where
  "fire s (Write data r) = transport_write s data r"
| "fire s WriteEof = write_eof s"
| "fire s PauseReading = Returns (pause_reading s)"
| "fire s ResumeReading = Returns (resume_reading s)"
| "fire s Close = Returns (close s)"
| "fire s Abort = Returns (abort s)"
| "fire s (ReadReady r keep_open) = read_ready s r keep_open"
| "fire s (WriteReady r) = write_ready s r"
| "fire s (Exited code) =
     (case process s of
        None \<Rightarrow> Raises AttributeError s
      | Some p \<Rightarrow> exited s (pid p) code)"

fun dispatched :: "transport \<Rightarrow> op \<Rightarrow> bool" where
  "dispatched s (ReadReady r keep_open) = (in_fd s \<in> readers s)"
| "dispatched s (WriteReady r) = (out_fd s \<in> writers s)"
| "dispatched s (Exited code) =
     (endpoint s = SubprocessTransport \<and> process s \<noteq> None \<and> returncode s = None)"
| "dispatched s _ = True"

definition step :: "transport \<Rightarrow> op \<Rightarrow> transport" where
  "step s x = (if dispatched s x then state_of (fire s x) else s)"

definition run :: "transport \<Rightarrow> op list \<Rightarrow> transport" where
  "run s xs = foldl step s xs"

text \<open>
  The operations of the program as it is written. \<^verbatim>\<open>_write_ready\<close> calls
  \<^verbatim>\<open>os.writev(self._queue)\<close>, with one argument; \<^verbatim>\<open>os.writev\<close> takes the descriptor
  and the buffers, so the call raises \<^verbatim>\<open>TypeError\<close> before anything is written. A
  write-readiness callback of the program is therefore \<^term>\<open>WriteReady (Failed TypeError)\<close>.
\<close>

fun as_written :: "op \<Rightarrow> bool" where
  "as_written (WriteReady r) = (r = Failed TypeError)"
| "as_written x = True"

text \<open>The bytes the kernel has accepted on the write direction, in order.\<close>

fun sent :: "os_effect list \<Rightarrow> bytes" where
  "sent [] = []"
| "sent (Accepted b # l) = b @ sent l"
| "sent (e # l) = sent l"

subsection \<open>Auxiliary notions for the properties\<close>

text \<open>The attributes that no method assigns after construction.\<close>

definition static ::
  "transport \<Rightarrow> endpoint \<times> process option \<times> bool \<times> int option \<times> spooler option" where
  "static s = (endpoint s, process s, eio_is_eof s, pty_fd s, stderr_spooler s)"

text \<open>An operating system used in the examples, and the transport it gives on a pseudo-terminal.\<close>

definition pty_env :: os_env where
  "pty_env = \<lparr>openpty_fds = (5, 6), pipe_stdin = 7, pipe_stdout = 8, pipe_stderr = 9,
              child_pid = 100, dup_fd = 10\<rparr>"

definition pty_transport :: transport where
  "pty_transport =
     \<lparr>endpoint = SubprocessTransport,
      process = Some \<lparr>pid = 100, stdin = None, stdout = None, stderr = None\<rparr>,
      queue = None, in_fd = 5, out_fd = 5, closing = False,
      is_reading = True, eof = False, eio_is_eof = True, pty_fd = Some 5,
      stderr_spooler = None, returncode = None, readers = {5},
      writers = {}, trace = [ConnectionMade], oslog = []\<rparr>"

text \<open>
  The object handed to \<^verbatim>\<open>_Transport.__init__\<close> has made no callback yet, and the loop
  it is given has neither the in-fd nor \<open>-1\<close> registered for reading.
\<close>

definition fresh :: "transport \<Rightarrow> int \<Rightarrow> bool" where
  "fresh self i_fd \<longleftrightarrow> trace self = [] \<and> i_fd \<notin> readers self \<and> -1 \<notin> readers self"



text \<open>The callbacks made by one step.\<close>

definition emitted :: "transport \<Rightarrow> op \<Rightarrow> event list" where
  "emitted s x = drop (length (trace s)) (trace (step s x))"

text \<open>
  \<^verbatim>\<open>connection_lost\<close> in a trace: \<open>lost_is_last\<close> holds when any such callback is the
  last element. \<open>transport_events\<close> leaves out \<^verbatim>\<open>process_exited\<close>, which comes from
  the child watcher.
\<close>

fun is_lost :: "event \<Rightarrow> bool" where
  "is_lost (ConnectionLost e) = True"
| "is_lost e = False"

fun lost_is_last :: "event list \<Rightarrow> bool" where
  "lost_is_last [] = True"
| "lost_is_last (e # es) = (if is_lost e then es = [] else lost_is_last es)"

definition transport_events :: "event list \<Rightarrow> event list" where
  "transport_events tr = filter (\<lambda>e. e \<noteq> ProcessExited) tr"

text \<open>
  A sequence of operations in which the consumer does not call \<^verbatim>\<open>abort()\<close> once
  \<^verbatim>\<open>connection_lost\<close> has been delivered.
\<close>

fun abort_not_repeated :: "transport \<Rightarrow> op list \<Rightarrow> bool" where
  "abort_not_repeated s [] = True"
| "abort_not_repeated s (x # xs) =
     ((x = Abort \<longrightarrow> \<not> list_ex is_lost (trace s)) \<and> abort_not_repeated (step s x) xs)"

text \<open>Invariants of the runs.\<close>

definition inv_read :: "transport \<Rightarrow> bool" where
  "inv_read s \<longleftrightarrow>
     (is_reading s \<longleftrightarrow> in_fd s \<in> readers s) \<and> -1 \<notin> readers s \<and> (closing s \<longrightarrow> in_fd s = -1)"

definition inv_eof :: "transport \<Rightarrow> bool" where
  "inv_eof s \<longleftrightarrow> inv_read s \<and> (EofReceived \<in> set (trace s) \<longrightarrow> in_fd s = -1)
      \<and> length (filter (\<lambda>e. e = EofReceived) (trace s)) \<le> 1"

definition inv_lost :: "transport \<Rightarrow> bool" where
  "inv_lost s \<longleftrightarrow> inv_read s \<and> lost_is_last (transport_events (trace s))
      \<and> (list_ex is_lost (trace s) \<longrightarrow> closing s \<and> queue s = None)
      \<and> (\<forall>e\<in>set (trace s). is_lost e \<longrightarrow> e = ConnectionLost None)"

section \<open>Properties\<close>

subsection \<open>Unfolding and frame lemmas\<close>

lemmas method_defs = pause_reading_def resume_reading_def close_reader_def remove_write_queue_def
  create_write_queue_def abort_def close_def write_eof_now_def write_eof_def transport_write_def
  consider_closing_def write_ready_def read_ready_def exited_def Let_def

lemmas init_defs = transport_init_def blank_def socket_transport_init_def stdio_transport_init_def


lemmas splits = option.splits write_result.splits read_result.splits sum.splits prod.splits
  bool.splits endpoint.splits outcome.splits

lemma static_step: "static (step s x) = static s"
  by (cases x) (auto simp: step_def static_def method_defs
      split: option.splits write_result.splits read_result.splits sum.splits prod.splits bool.splits endpoint.splits)

lemma static_run: "static (run s xs) = static s"
  unfolding run_def by (induction xs arbitrary: s) (simp_all add: static_step)

lemma consume_unfold:
  "consume n q =
     (if n = 0 then Inr (False, q)
      else case q of
        [] \<Rightarrow> Inl IndexError
      | block # q' \<Rightarrow>
          if length block > n then Inr (True, drop n block # q')
          else consume (n - length block) q')"
  by (cases n; cases q) simp_all

lemma subprocess_init_pty:
  assumes "subprocess_transport_init rd wr env True window kw = Inr t"
  shows "endpoint t = SubprocessTransport \<and> eio_is_eof t \<and> stderr_spooler t = None
         \<and> (\<exists>p. process t = Some p \<and> stdin p = None \<and> stdout p = None \<and> stderr p = None)
         \<and> pty_fd t = Some (fst (openpty_fds env))
         \<and> in_fd t = fst (openpty_fds env) \<and> out_fd t = fst (openpty_fds env)"
  using assms
  by (auto simp: subprocess_transport_init_def Let_def popen_def attach_stderr_def
        transport_init_def blank_def resume_reading_def set_window_size_def map_add_def
      split: option.splits outcome.splits sum.splits if_splits prod.splits)

lemma subprocess_init_pipes:
  assumes "subprocess_transport_init rd wr env False window kw = Inr t"
  shows "endpoint t = SubprocessTransport \<and> \<not> eio_is_eof t
         \<and> (\<exists>p. process t = Some p \<and> stdin p = Some (pipe_stdin env))
         \<and> pty_fd t = None"
  using assms
  by (auto simp: subprocess_transport_init_def Let_def popen_def attach_stderr_def
        transport_init_def blank_def resume_reading_def set_window_size_def map_add_def spooler_init_def
      split: option.splits outcome.splits sum.splits if_splits prod.splits)

lemma pty_example:
  "subprocess_transport_init {} {} pty_env True (Some (24, 80)) (Map.empty(''stderr'' \<mapsto> PIPE))
     = Inr pty_transport"
  by (simp add: subprocess_transport_init_def pty_env_def pty_transport_def Let_def popen_def
        attach_stderr_def transport_init_def blank_def resume_reading_def set_window_size_def
        map_add_def)

text \<open>What each method does to the attributes the invariants speak of.\<close>

lemma pause_reading_fields [simp]:
  "queue (pause_reading s) = queue s"
  "in_fd (pause_reading s) = in_fd s"
  "out_fd (pause_reading s) = out_fd s"
  "closing (pause_reading s) = closing s"
  "eof (pause_reading s) = eof s"
  "writers (pause_reading s) = writers s"
  "trace (pause_reading s) = trace s"
  "oslog (pause_reading s) = oslog s"
  "returncode (pause_reading s) = returncode s"
  "is_reading (pause_reading s) = False"
  "readers (pause_reading s) = (if is_reading s then readers s - {in_fd s} else readers s)"
  by (simp_all add: pause_reading_def)

lemma resume_reading_fields [simp]:
  "queue (resume_reading s) = queue s"
  "in_fd (resume_reading s) = in_fd s"
  "out_fd (resume_reading s) = out_fd s"
  "closing (resume_reading s) = closing s"
  "eof (resume_reading s) = eof s"
  "writers (resume_reading s) = writers s"
  "trace (resume_reading s) = trace s"
  "oslog (resume_reading s) = oslog s"
  "returncode (resume_reading s) = returncode s"
  "is_reading (resume_reading s) = (is_reading s \<or> in_fd s \<noteq> -1)"
  "readers (resume_reading s) =
     (if \<not> is_reading s \<and> in_fd s \<noteq> -1 then insert (in_fd s) (readers s) else readers s)"
  by (simp_all add: resume_reading_def)

lemma close_reader_fields [simp]:
  "queue (close_reader s) = queue s"
  "in_fd (close_reader s) = -1"
  "out_fd (close_reader s) = out_fd s"
  "closing (close_reader s) = closing s"
  "eof (close_reader s) = eof s"
  "writers (close_reader s) = writers s"
  "trace (close_reader s) = trace s"
  "oslog (close_reader s) = oslog s"
  "returncode (close_reader s) = returncode s"
  "is_reading (close_reader s) = False"
  "readers (close_reader s) = (if is_reading s then readers s - {in_fd s} else readers s)"
  by (simp_all add: close_reader_def)

lemma remove_write_queue_fields [simp]:
  "queue (remove_write_queue s) = None"
  "in_fd (remove_write_queue s) = in_fd s"
  "out_fd (remove_write_queue s) = out_fd s"
  "closing (remove_write_queue s) = closing s"
  "eof (remove_write_queue s) = eof s"
  "writers (remove_write_queue s) = (if queue s \<noteq> None then writers s - {out_fd s} else writers s)"
  "trace (remove_write_queue s) = (if queue s \<noteq> None then trace s @ [ResumeWriting] else trace s)"
  "oslog (remove_write_queue s) = oslog s"
  "returncode (remove_write_queue s) = returncode s"
  "is_reading (remove_write_queue s) = is_reading s"
  "readers (remove_write_queue s) = readers s"
  by (simp_all add: remove_write_queue_def)

lemma abort_fields [simp]:
  "queue (abort s) = None"
  "in_fd (abort s) = -1"
  "out_fd (abort s) = out_fd s"
  "closing (abort s) = True"
  "eof (abort s) = eof s"
  "writers (abort s) = (if queue s \<noteq> None then writers s - {out_fd s} else writers s)"
  "trace (abort s) =
     (if queue s \<noteq> None then trace s @ [ResumeWriting, ConnectionLost None]
      else trace s @ [ConnectionLost None])"
  "oslog (abort s) = oslog s"
  "returncode (abort s) = returncode s"
  "is_reading (abort s) = False"
  "readers (abort s) = (if is_reading s then readers s - {in_fd s} else readers s)"
  by (simp_all add: abort_def Let_def)

lemma close_fields [simp]:
  "queue (close s) = queue s"
  "in_fd (close s) = (if closing s then in_fd s else -1)"
  "out_fd (close s) = out_fd s"
  "closing (close s) = True"
  "eof (close s) = eof s"
  "writers (close s) = writers s"
  "trace (close s) =
     (if closing s \<or> queue s \<noteq> None then trace s else trace s @ [ConnectionLost None])"
  "oslog (close s) = oslog s"
  "returncode (close s) = returncode s"
  "is_reading (close s) = (closing s \<and> is_reading s)"
  "readers (close s) =
     (if \<not> closing s \<and> is_reading s then readers s - {in_fd s} else readers s)"
  by (simp_all add: close_def Let_def)

lemma write_eof_now_fields [simp]:
  "queue (state_of (write_eof_now s)) = queue s"
  "in_fd (state_of (write_eof_now s)) = in_fd s"
  "closing (state_of (write_eof_now s)) = closing s"
  "eof (state_of (write_eof_now s)) = eof s"
  "writers (state_of (write_eof_now s)) = writers s"
  "trace (state_of (write_eof_now s)) = trace s"
  "returncode (state_of (write_eof_now s)) = returncode s"
  "is_reading (state_of (write_eof_now s)) = is_reading s"
  "readers (state_of (write_eof_now s)) = readers s"
  by (simp_all add: write_eof_now_def split: endpoint.splits option.splits)

subsection \<open>The states a method can leave\<close>

lemma transport_write_shape:
  "state_of (transport_write s d r) = s
   \<or> (\<exists>q. queue s = Some q \<and> \<not> closing s \<and> \<not> eof s
          \<and> state_of (transport_write s d r) = s\<lparr>queue := Some (q @ [d])\<rparr>)
   \<or> (queue s = None \<and> \<not> closing s \<and> \<not> eof s
          \<and> state_of (transport_write s d r) = abort s)
   \<or> (\<exists>l. queue s = None \<and> \<not> closing s \<and> \<not> eof s
          \<and> state_of (transport_write s d r) = s\<lparr>oslog := l\<rparr>)
   \<or> (\<exists>l b. queue s = None \<and> \<not> closing s \<and> \<not> eof s
          \<and> state_of (transport_write s d r)
              = s\<lparr>oslog := l, writers := insert (out_fd s) (writers s),
                   queue := Some [b], trace := trace s @ [PauseWriting]\<rparr>)"
proof (cases "closing s \<or> eof s")
  case True
  then show ?thesis by (auto simp: transport_write_def)
next
  case usable: False
  show ?thesis
  proof (cases "queue s")
    case (Some q)
    with usable show ?thesis by (simp add: transport_write_def)
  next
    case None
    show ?thesis
    proof (cases r)
      case BrokenPipe
      with usable None show ?thesis by (simp add: transport_write_def)
    next
      case (Failed e)
      with usable None show ?thesis by (simp add: transport_write_def)
    next
      case (Wrote n)
      show ?thesis
      proof (cases "n = length d")
        case True
        with usable None Wrote
        have "state_of (transport_write s d r) = s\<lparr>oslog := oslog s @ [Accepted (take n d)]\<rparr>"
          by (simp add: transport_write_def)
        with usable None show ?thesis by blast
      next
        case False
        with usable None Wrote
        have "state_of (transport_write s d r)
                = s\<lparr>oslog := oslog s @ [Accepted (take n d)],
                     writers := insert (out_fd s) (writers s),
                     queue := Some [drop n d], trace := trace s @ [PauseWriting]\<rparr>"
          by (simp add: transport_write_def create_write_queue_def)
        with usable None show ?thesis by blast
      qed
    qed
  qed
qed

lemma write_ready_shape:
  "state_of (write_ready s r) = s
   \<or> (queue s \<noteq> None \<and> state_of (write_ready s r) = abort s)
   \<or> (\<exists>l q'. queue s \<noteq> None
          \<and> state_of (write_ready s r) = s\<lparr>oslog := l, queue := Some q'\<rparr>)
   \<or> (\<exists>l q'. queue s \<noteq> None \<and> \<not> eof s \<and> \<not> closing s
          \<and> state_of (write_ready s r) = remove_write_queue (s\<lparr>oslog := l, queue := Some q'\<rparr>))
   \<or> (\<exists>l q'. queue s \<noteq> None \<and> eof s
          \<and> state_of (write_ready s r)
              = state_of (write_eof_now (remove_write_queue (s\<lparr>oslog := l, queue := Some q'\<rparr>))))
   \<or> (\<exists>l q'. queue s \<noteq> None \<and> \<not> eof s \<and> closing s
          \<and> state_of (write_ready s r)
              = abort (remove_write_queue (s\<lparr>oslog := l, queue := Some q'\<rparr>)))"
proof (cases "queue s")
  case None
  then show ?thesis by (simp add: write_ready_def)
next
  case (Some q)
  show ?thesis
  proof (cases r)
    case BrokenPipe
    with Some show ?thesis by (simp add: write_ready_def)
  next
    case (Failed e)
    with Some show ?thesis by (simp add: write_ready_def)
  next
    case (Wrote n)
    let ?s1 = "s\<lparr>oslog := oslog s @ [Accepted (take n (concat q))]\<rparr>"
    show ?thesis
    proof (cases "consume n q")
      case (Inl e)
      with Some Wrote have "state_of (write_ready s r) = ?s1\<lparr>queue := Some []\<rparr>"
        by (simp add: write_ready_def)
      with Some show ?thesis by auto
    next
      case (Inr bq)
      obtain b q' where bq: "bq = (b, q')" by (cases bq)
      show ?thesis
      proof (cases b)
        case True
        with Some Wrote Inr bq have "state_of (write_ready s r) = ?s1\<lparr>queue := Some q'\<rparr>"
          by (simp add: write_ready_def)
        with Some show ?thesis by auto
      next
        case False
        let ?s2 = "remove_write_queue (s\<lparr>oslog := oslog s @ [Accepted (take n (concat q))], queue := Some q'\<rparr>)"
        have sow: "state_of (write_ready s r)
             = (if eof s then state_of (write_eof_now ?s2)
                else if closing s then abort ?s2 else ?s2)"
          using Some Wrote Inr bq False
          by (simp add: write_ready_def consider_closing_def Let_def split: outcome.splits)
        from sow Some show ?thesis by auto
      qed
    qed
  qed
qed

lemma read_ready_shape:
  "state_of (read_ready s r k) = s
   \<or> (\<exists>d. d \<noteq> [] \<and> state_of (read_ready s r k) = s\<lparr>trace := trace s @ [DataReceived d]\<rparr>)
   \<or> state_of (read_ready s r k) = (close_reader s)\<lparr>trace := trace s @ [EofReceived]\<rparr>
   \<or> state_of (read_ready s r k) = close ((close_reader s)\<lparr>trace := trace s @ [EofReceived]\<rparr>)"
proof (cases r)
  case (ReadData d)
  show ?thesis
  proof (cases "d = []")
    case True
    with ReadData show ?thesis by (simp add: read_ready_def Let_def)
  next
    case False
    with ReadData
    have "state_of (read_ready s r k) = s\<lparr>trace := trace s @ [DataReceived d]\<rparr>"
      by (simp add: read_ready_def)
    with False show ?thesis by blast
  qed
next
  case ReadIOError
  then show ?thesis by (simp add: read_ready_def Let_def)
qed

lemma write_eof_shape:
  "state_of (write_eof s) = s
   \<or> (\<not> eof s \<and> queue s \<noteq> None \<and> state_of (write_eof s) = s\<lparr>eof := True\<rparr>)
   \<or> (\<not> eof s \<and> queue s = None \<and> state_of (write_eof s) = state_of (write_eof_now (s\<lparr>eof := True\<rparr>)))"
  by (simp add: write_eof_def Let_def)

lemma exited_shape:
  "state_of (fire s (Exited c)) = s
   \<or> state_of (fire s (Exited c)) = s\<lparr>returncode := Some c, trace := trace s @ [ProcessExited]\<rparr>"
  by (simp add: exited_def split: option.splits)

lemma step_cases [case_names unchanged appended aborted accepted queued partial drained
    drained_eof drained_closing data eof_keep eof_close eof_deferred eof_now paused resumed
    closed exit]:
  obtains
    "step s x = s"
  | q d where "queue s = Some q" "\<not> closing s" "\<not> eof s" "step s x = s\<lparr>queue := Some (q @ [d])\<rparr>"
  | "x = Abort \<or> \<not> closing s \<or> queue s \<noteq> None" "step s x = abort s"
  | l where "step s x = s\<lparr>oslog := l\<rparr>"
  | l b where "queue s = None" "\<not> closing s" "\<not> eof s"
      "step s x = s\<lparr>oslog := l, writers := insert (out_fd s) (writers s),
                     queue := Some [b], trace := trace s @ [PauseWriting]\<rparr>"
  | l q' where "queue s \<noteq> None" "step s x = s\<lparr>oslog := l, queue := Some q'\<rparr>"
  | l q' where "queue s \<noteq> None" "\<not> eof s" "\<not> closing s"
      "step s x = remove_write_queue (s\<lparr>oslog := l, queue := Some q'\<rparr>)"
  | l q' where "queue s \<noteq> None" "eof s"
      "step s x = state_of (write_eof_now (remove_write_queue (s\<lparr>oslog := l, queue := Some q'\<rparr>)))"
  | l q' where "queue s \<noteq> None" "\<not> eof s" "closing s"
      "step s x = abort (remove_write_queue (s\<lparr>oslog := l, queue := Some q'\<rparr>))"
  | d where "d \<noteq> []" "in_fd s \<in> readers s" "step s x = s\<lparr>trace := trace s @ [DataReceived d]\<rparr>"
  | "in_fd s \<in> readers s" "step s x = (close_reader s)\<lparr>trace := trace s @ [EofReceived]\<rparr>"
  | "in_fd s \<in> readers s"
      "step s x = close ((close_reader s)\<lparr>trace := trace s @ [EofReceived]\<rparr>)"
  | "\<not> eof s" "queue s \<noteq> None" "step s x = s\<lparr>eof := True\<rparr>"
  | "\<not> eof s" "queue s = None" "step s x = state_of (write_eof_now (s\<lparr>eof := True\<rparr>))"
  | "step s x = pause_reading s"
  | "step s x = resume_reading s"
  | "step s x = close s"
  | c where "step s x = s\<lparr>returncode := Some c, trace := trace s @ [ProcessExited]\<rparr>"
proof (cases x)
  case (Write d r)
  then have st: "state_of (transport_write s d r) = step s x" by (simp add: step_def)
  from transport_write_shape [of s d r, unfolded st] show ?thesis
    using that(1-5) by blast
next
  case WriteEof
  then have st: "state_of (write_eof s) = step s x" by (simp add: step_def)
  from write_eof_shape [of s, unfolded st] show ?thesis
    using that(1,13,14) by blast
next
  case PauseReading
  then have "step s x = pause_reading s" by (simp add: step_def)
  then show ?thesis by (rule that(15))
next
  case ResumeReading
  then have "step s x = resume_reading s" by (simp add: step_def)
  then show ?thesis by (rule that(16))
next
  case Close
  then have "step s x = close s" by (simp add: step_def)
  then show ?thesis by (rule that(17))
next
  case Abort
  then have "step s x = abort s" by (simp add: step_def)
  with Abort show ?thesis using that(3) by blast
next
  case (ReadReady r k)
  show ?thesis
  proof (cases "in_fd s \<in> readers s")
    case False
    with ReadReady have "step s x = s" by (simp add: step_def)
    then show ?thesis by (rule that(1))
  next
    case True
    with ReadReady have st: "state_of (read_ready s r k) = step s x" by (simp add: step_def)
    from read_ready_shape [of s r k, unfolded st] True show ?thesis
      using that(1,10,11,12) by blast
  qed
next
  case (WriteReady r)
  show ?thesis
  proof (cases "out_fd s \<in> writers s")
    case False
    with WriteReady have "step s x = s" by (simp add: step_def)
    then show ?thesis by (rule that(1))
  next
    case True
    with WriteReady have st: "state_of (write_ready s r) = step s x" by (simp add: step_def)
    from write_ready_shape [of s r, unfolded st] show ?thesis
      using that(1,3,6,7,8,9) by blast
  qed
next
  case (Exited c)
  show ?thesis
  proof (cases "dispatched s x")
    case False
    then have "step s x = s" by (simp add: step_def)
    then show ?thesis by (rule that(1))
  next
    case True
    then have st: "state_of (fire s (Exited c)) = step s x" using Exited by (simp add: step_def)
    from exited_shape [of s c, unfolded st] show ?thesis
      using that(1,18) by blast
  qed
qed

subsection \<open>Invariants\<close>


lemma inv_read_init: "fresh self i \<Longrightarrow> inv_read (transport_init self i o_fd)"
  by (auto simp: fresh_def inv_read_def transport_init_def)





lemma trace_step: "trace (step s x) = trace s @ emitted s x"
  unfolding emitted_def by (cases rule: step_cases [of s x]) auto

lemma trace_run: "\<exists>es. trace (run s xs) = trace s @ es"
  unfolding run_def
proof (induction xs arbitrary: s)
  case Nil
  show ?case by simp
next
  case (Cons x xs)
  from Cons [of "step s x"] obtain es where "trace (foldl step (step s x) xs) = trace (step s x) @ es" ..
  then have "trace (foldl step s (x # xs)) = trace s @ (emitted s x @ es)"
    by (simp add: trace_step)
  then show ?case ..
qed


lemma no_eof_received: "EofReceived \<notin> set tr \<Longrightarrow> filter (\<lambda>e. e = EofReceived) tr = []"
  by (induction tr) auto

lemma inv_eof_step:
  assumes "inv_eof s" shows "inv_eof (step s x)"
  using assms
  by (cases rule: step_cases [of s x]) (auto simp: inv_eof_def inv_read_def no_eof_received)

lemma inv_eof_run: "inv_eof s \<Longrightarrow> inv_eof (run s xs)"
  unfolding run_def by (induction xs arbitrary: s) (simp_all add: inv_eof_step)

lemma inv_eof_init: "fresh self i \<Longrightarrow> inv_eof (transport_init self i o_fd)"
  using inv_read_init [of self i o_fd]
  by (simp add: inv_eof_def) (simp add: transport_init_def fresh_def)

lemma count_eof_run:
  assumes "inv_eof s" and "EofReceived \<in> set (trace s)"
  shows "length (filter (\<lambda>e. e = EofReceived) (trace (run s ys))) = 1"
proof -
  from trace_run [of s ys] obtain es where es: "trace (run s ys) = trace s @ es" ..
  from assms(2) have "filter (\<lambda>e. e = EofReceived) (trace s) \<noteq> []"
    by (simp add: filter_empty_conv)
  then have "1 \<le> length (filter (\<lambda>e. e = EofReceived) (trace s))"
    by (cases "filter (\<lambda>e. e = EofReceived) (trace s)") simp_all
  then have "1 \<le> length (filter (\<lambda>e. e = EofReceived) (trace (run s ys)))"
    by (simp add: es)
  moreover have "length (filter (\<lambda>e. e = EofReceived) (trace (run s ys))) \<le> 1"
    using inv_eof_run [OF assms(1), of ys] by (simp add: inv_eof_def)
  ultimately show ?thesis by simp
qed

lemma lost_is_last_append:
  "lost_is_last (xs @ ys) =
     (if list_ex is_lost xs then lost_is_last xs \<and> ys = [] else lost_is_last ys)"
  by (induction xs) auto

lemma inv_lost_step:
  assumes "inv_lost s" and "x = Abort \<longrightarrow> \<not> list_ex is_lost (trace s)"
  shows "inv_lost (step s x)"
  using assms
  by (cases rule: step_cases [of s x])
     (auto simp: inv_lost_def inv_read_def transport_events_def lost_is_last_append list_ex_iff)

lemma inv_lost_run:
  "inv_lost s \<Longrightarrow> abort_not_repeated s xs \<Longrightarrow> inv_lost (run s xs)"
  unfolding run_def by (induction xs arbitrary: s) (simp_all add: inv_lost_step)

lemma inv_lost_init: "fresh self i \<Longrightarrow> inv_lost (transport_init self i o_fd)"
  using inv_read_init [of self i o_fd]
  by (simp add: inv_lost_def) (simp add: transport_init_def fresh_def transport_events_def)

lemma lost_is_last_count: "lost_is_last tr \<Longrightarrow> length (filter is_lost tr) \<le> 1"
  by (induction tr) (auto split: if_splits)

lemma filter_lost_transport_events: "filter is_lost (transport_events tr) = filter is_lost tr"
  unfolding transport_events_def by (induction tr) auto

subsection \<open>Runs of the program as written\<close>

text \<open>
  A write-readiness callback of the program changes nothing, however often the loop calls
  it.
\<close>

lemma run_append: "run s (xs @ ys) = run (run s xs) ys"
  by (simp add: run_def)

lemma run_Cons: "run s (x # xs) = run (step s x) xs"
  by (simp add: run_def)

lemma step_write_ready_as_written: "step s (WriteReady (Failed TypeError)) = s"
  by (simp add: step_def write_ready_def split: option.splits)

lemma run_write_ready_as_written: "run s (replicate n (WriteReady (Failed TypeError))) = s"
  by (induction n) (simp_all add: run_def step_write_ready_as_written)



text \<open>The states a step of the program can leave, with the operation that leaves them.\<close>

lemma transport_write_exact:
  "state_of (transport_write s d r) = s
   \<or> (\<exists>q. queue s = Some q \<and> \<not> closing s \<and> \<not> eof s
          \<and> state_of (transport_write s d r) = s\<lparr>queue := Some (q @ [d])\<rparr>)
   \<or> (r = BrokenPipe \<and> queue s = None \<and> \<not> closing s \<and> \<not> eof s
          \<and> state_of (transport_write s d r) = abort s)
   \<or> (r = Wrote (length d) \<and> queue s = None \<and> \<not> closing s \<and> \<not> eof s
          \<and> state_of (transport_write s d r) = s\<lparr>oslog := oslog s @ [Accepted d]\<rparr>)
   \<or> (\<exists>n. r = Wrote n \<and> n \<noteq> length d \<and> queue s = None \<and> \<not> closing s \<and> \<not> eof s
          \<and> state_of (transport_write s d r)
              = s\<lparr>oslog := oslog s @ [Accepted (take n d)],
                   writers := insert (out_fd s) (writers s),
                   queue := Some [drop n d], trace := trace s @ [PauseWriting]\<rparr>)"
proof (cases "closing s \<or> eof s")
  case True
  then show ?thesis by (auto simp: transport_write_def)
next
  case usable: False
  show ?thesis
  proof (cases "queue s")
    case (Some q)
    with usable show ?thesis by (simp add: transport_write_def)
  next
    case None
    show ?thesis
    proof (cases r)
      case BrokenPipe
      with usable None show ?thesis by (simp add: transport_write_def)
    next
      case (Failed e)
      with usable None show ?thesis by (simp add: transport_write_def)
    next
      case (Wrote n)
      show ?thesis
      proof (cases "n = length d")
        case True
        with usable None Wrote
        have "state_of (transport_write s d r) = s\<lparr>oslog := oslog s @ [Accepted d]\<rparr>"
          by (simp add: transport_write_def)
        with usable None Wrote True show ?thesis by blast
      next
        case False
        with usable None Wrote
        have "state_of (transport_write s d r)
                = s\<lparr>oslog := oslog s @ [Accepted (take n d)],
                     writers := insert (out_fd s) (writers s),
                     queue := Some [drop n d], trace := trace s @ [PauseWriting]\<rparr>"
          by (simp add: transport_write_def create_write_queue_def)
        with usable None Wrote False show ?thesis by blast
      qed
    qed
  qed
qed

lemma real_step_cases [consumes 1, case_names unchanged appended broken aborted accepted queued
    data eof_keep eof_close eof_deferred eof_now paused resumed closed exit]:
  assumes "as_written x"
  obtains
    "step s x = s"
  | q d r where "x = Write d r" "queue s = Some q" "\<not> closing s" "\<not> eof s"
      "step s x = s\<lparr>queue := Some (q @ [d])\<rparr>"
  | d where "x = Write d BrokenPipe" "queue s = None" "\<not> closing s" "\<not> eof s"
      "step s x = abort s"
  | "x = Abort" "step s x = abort s"
  | d where "x = Write d (Wrote (length d))" "queue s = None" "\<not> closing s" "\<not> eof s"
      "step s x = s\<lparr>oslog := oslog s @ [Accepted d]\<rparr>"
  | d n where "x = Write d (Wrote n)" "n \<noteq> length d" "queue s = None" "\<not> closing s" "\<not> eof s"
      "step s x = s\<lparr>oslog := oslog s @ [Accepted (take n d)],
                     writers := insert (out_fd s) (writers s),
                     queue := Some [drop n d], trace := trace s @ [PauseWriting]\<rparr>"
  | d where "d \<noteq> []" "in_fd s \<in> readers s" "step s x = s\<lparr>trace := trace s @ [DataReceived d]\<rparr>"
  | "in_fd s \<in> readers s" "step s x = (close_reader s)\<lparr>trace := trace s @ [EofReceived]\<rparr>"
  | "in_fd s \<in> readers s"
      "step s x = close ((close_reader s)\<lparr>trace := trace s @ [EofReceived]\<rparr>)"
  | "x = WriteEof" "\<not> eof s" "queue s \<noteq> None" "step s x = s\<lparr>eof := True\<rparr>"
  | "x = WriteEof" "\<not> eof s" "queue s = None"
      "step s x = state_of (write_eof_now (s\<lparr>eof := True\<rparr>))"
  | "step s x = pause_reading s"
  | "step s x = resume_reading s"
  | "step s x = close s"
  | c where "step s x = s\<lparr>returncode := Some c, trace := trace s @ [ProcessExited]\<rparr>"
proof (cases x)
  case (Write d r)
  then have st: "state_of (transport_write s d r) = step s x" by (simp add: step_def)
  from transport_write_exact [of s d r, unfolded st] Write show ?thesis
    using that(1,2,3,5,6) by blast
next
  case WriteEof
  then have st: "state_of (write_eof s) = step s x" by (simp add: step_def)
  from write_eof_shape [of s, unfolded st] WriteEof show ?thesis
    using that(1,10,11) by blast
next
  case PauseReading
  then have "step s x = pause_reading s" by (simp add: step_def)
  then show ?thesis by (rule that(12))
next
  case ResumeReading
  then have "step s x = resume_reading s" by (simp add: step_def)
  then show ?thesis by (rule that(13))
next
  case Close
  then have "step s x = close s" by (simp add: step_def)
  then show ?thesis by (rule that(14))
next
  case Abort
  then have "step s x = abort s" by (simp add: step_def)
  with Abort show ?thesis by (rule that(4))
next
  case (ReadReady r k)
  show ?thesis
  proof (cases "in_fd s \<in> readers s")
    case False
    with ReadReady have "step s x = s" by (simp add: step_def)
    then show ?thesis by (rule that(1))
  next
    case True
    with ReadReady have st: "state_of (read_ready s r k) = step s x" by (simp add: step_def)
    from read_ready_shape [of s r k, unfolded st] True show ?thesis
      using that(1,7,8,9) by blast
  qed
next
  case (WriteReady r)
  with assms have "step s x = s" by (simp add: step_write_ready_as_written)
  then show ?thesis by (rule that(1))
next
  case (Exited c)
  show ?thesis
  proof (cases "dispatched s x")
    case False
    then have "step s x = s" by (simp add: step_def)
    then show ?thesis by (rule that(1))
  next
    case True
    then have st: "state_of (fire s (Exited c)) = step s x" using Exited by (simp add: step_def)
    from exited_shape [of s c, unfolded st] show ?thesis
      using that(1,15) by blast
  qed
qed



text \<open>
  While a queue is outstanding the kernel accepts nothing, and once a queue has been created
  it never accepts anything again. Once write-EOF has been requested nothing more happens on
  the kernel side. On a closing transport only \<^verbatim>\<open>abort()\<close> delivers
  \<^verbatim>\<open>connection_lost\<close>.
\<close>

lemma sent_append [simp]: "sent (l @ m) = sent l @ sent m"
  by (induction l rule: sent.induct) simp_all

lemma write_eof_now_sent [simp]: "sent (oslog (state_of (write_eof_now s))) = sent (oslog s)"
  by (simp add: write_eof_now_def split: endpoint.splits option.splits)


lemma frozen_step:
  assumes "as_written x" and "queue s \<noteq> None \<or> closing s"
  shows "sent (oslog (step s x)) = sent (oslog s)
         \<and> (queue (step s x) \<noteq> None \<or> closing (step s x))"
  using assms by (cases rule: real_step_cases [of x s]) auto

lemma frozen_run:
  assumes "list_all as_written ys" and "queue s \<noteq> None \<or> closing s"
  shows "sent (oslog (run s ys)) = sent (oslog s)"
  using assms
proof (induction ys arbitrary: s)
  case Nil
  show ?case by (simp add: run_def)
next
  case (Cons y ys)
  from Cons.prems have y: "as_written y" and ys: "list_all as_written ys" by simp_all
  from frozen_step [OF y Cons.prems(2)]
  have "sent (oslog (step s y)) = sent (oslog s)"
    and "queue (step s y) \<noteq> None \<or> closing (step s y)" by simp_all
  with Cons.IH [OF ys, of "step s y"] show ?case by (simp add: run_Cons)
qed

lemma eof_freezes_oslog_step:
  assumes "as_written x" and "eof s"
  shows "oslog (step s x) = oslog s \<and> eof (step s x)"
  using assms by (cases rule: real_step_cases [of x s]) auto

lemma eof_freezes_oslog:
  assumes "list_all as_written ys" and "eof s"
  shows "oslog (run s ys) = oslog s"
  using assms
proof (induction ys arbitrary: s)
  case Nil
  show ?case by (simp add: run_def)
next
  case (Cons y ys)
  from Cons.prems have y: "as_written y" and ys: "list_all as_written ys" by simp_all
  from eof_freezes_oslog_step [OF y Cons.prems(2)]
  have "oslog (step s y) = oslog s" and "eof (step s y)" by simp_all
  with Cons.IH [OF ys, of "step s y"] show ?case by (simp add: run_Cons)
qed

lemma closing_no_lost_step:
  assumes "as_written x" and "x \<noteq> Abort" and "closing s"
  shows "filter is_lost (trace (step s x)) = filter is_lost (trace s) \<and> closing (step s x)"
  using assms by (cases rule: real_step_cases [of x s]) auto

lemma closing_no_lost:
  assumes "list_all as_written ys" and "Abort \<notin> set ys" and "closing s"
  shows "filter is_lost (trace (run s ys)) = filter is_lost (trace s)"
  using assms
proof (induction ys arbitrary: s)
  case Nil
  show ?case by (simp add: run_def)
next
  case (Cons y ys)
  from Cons.prems have y: "as_written y" "y \<noteq> Abort"
    and ys: "list_all as_written ys" "Abort \<notin> set ys" by auto
  from closing_no_lost_step [OF y Cons.prems(3)]
  have "filter is_lost (trace (step s y)) = filter is_lost (trace s)" and "closing (step s y)"
    by simp_all
  with Cons.IH [OF ys, of "step s y"] show ?case by (simp add: run_Cons)
qed

subsection \<open>Broken pipe on a synchronous write\<close>

text \<open>
  C3. On a transport that is neither closing nor half-closed and has no queue outstanding
  (so that \<^verbatim>\<open>write()\<close> makes the system call), a write answered by a broken pipe returns
  normally; afterwards reading has stopped and the in-fd is \<open>-1\<close>, its read registration
  is removed, there is no queue, the transport is closing, the only callback made is
  \<^verbatim>\<open>connection_lost(None)\<close>, and the kernel has accepted nothing of the data.
\<close>

theorem C3_broken_pipe_write:
  fixes s :: transport and data :: bytes
  defines "s' \<equiv> state_of (transport_write s data BrokenPipe)"
  assumes "\<not> closing s" and "\<not> eof s" and "queue s = None"
  shows "raised (transport_write s data BrokenPipe) = None
           \<and> \<not> is_reading s' \<and> in_fd s' = -1
           \<and> readers s' = (if is_reading s then readers s - {in_fd s} else readers s)
           \<and> queue s' = None \<and> writers s' = writers s
           \<and> closing s'
           \<and> trace s' = trace s @ [ConnectionLost None]
           \<and> oslog s' = oslog s"
  using assms by (simp add: method_defs)

theorem C3_broken_pipe_write_witness:
  "raised (transport_write (socket_transport_init {} {} 3) ''hello'' BrokenPipe) = None
   \<and> in_fd (state_of (transport_write (socket_transport_init {} {} 3) ''hello'' BrokenPipe)) = -1
   \<and> trace (state_of (transport_write (socket_transport_init {} {} 3) ''hello'' BrokenPipe))
       = [ConnectionMade, ConnectionLost None]"
  using C3_broken_pipe_write [of "socket_transport_init {} {} 3" "''hello''"]
  by (simp add: init_defs resume_reading_def)

subsection \<open>The precondition of write_eof\<close>

text \<open>
  C6, as the claim states it, fails: after \<^verbatim>\<open>close()\<close> on a socket transport,
  \<^verbatim>\<open>write_eof()\<close> returns normally, marks write-EOF requested and shuts the socket down.
\<close>

theorem C6_counterexample:
  "closing (run (socket_transport_init {} {} 3) [Close])
   \<and> \<not> eof (run (socket_transport_init {} {} 3) [Close])
   \<and> raised (write_eof (run (socket_transport_init {} {} 3) [Close])) = None
   \<and> eof (state_of (write_eof (run (socket_transport_init {} {} 3) [Close])))
   \<and> oslog (state_of (write_eof (run (socket_transport_init {} {} 3) [Close]))) = [SocketShutdownWR]"
  by (simp add: run_def step_def init_defs method_defs)

text \<open>
  C6, amended. \<^verbatim>\<open>write_eof()\<close> fails its precondition, leaving the transport as it
  was, when write-EOF has already been requested. When it has not, the call does not fail
  the precondition, whether or not the transport is closing: it marks write-EOF requested,
  and performs the half-close action at once when no queue is outstanding.
\<close>

theorem C6_write_eof_precondition:
  "(eof s \<longrightarrow> write_eof s = Raises AssertionError s)
   \<and> (\<not> eof s \<longrightarrow> raised (write_eof s) \<noteq> Some AssertionError
                  \<and> eof (state_of (write_eof s))
                  \<and> (queue s \<noteq> None \<longrightarrow> write_eof s = Returns (s\<lparr>eof := True\<rparr>))
                  \<and> (queue s = None \<longrightarrow> write_eof s = write_eof_now (s\<lparr>eof := True\<rparr>)))"
  by (auto simp: write_eof_def write_eof_now_def Let_def split: endpoint.splits option.splits)

theorem C6_write_eof_precondition_witness:
  "write_eof (state_of (write_eof (socket_transport_init {} {} 3)))
     = Raises AssertionError (state_of (write_eof (socket_transport_init {} {} 3)))
   \<and> raised (write_eof (socket_transport_init {} {} 3)) = None"
  using C6_write_eof_precondition [of "state_of (write_eof (socket_transport_init {} {} 3))"]
        C6_write_eof_precondition [of "socket_transport_init {} {} 3"]
  by (simp add: init_defs method_defs)

subsection \<open>I/O errors on read\<close>

text \<open>
  C8. When the read raises an I/O error, a transport with \<^verbatim>\<open>_eio_is_eof\<close> set does exactly
  what it does on a zero-length read, and any other transport re-raises the error, unchanged.
  The flag is set, and stays set, on a subprocess transport built with a pseudo-terminal; it
  is never set on one built with pipes, on a socket transport or on a stdio transport.
\<close>

theorem C8_read_error:
  "read_ready s ReadIOError keep_open
     = (if eio_is_eof s then read_ready s (ReadData []) keep_open else Raises OSError s)
   \<and> (subprocess_transport_init rd wr env True window kw = Inr t \<longrightarrow> eio_is_eof (run t xs))
   \<and> (subprocess_transport_init rd wr env False window kw = Inr t \<longrightarrow> \<not> eio_is_eof (run t xs))
   \<and> \<not> eio_is_eof (run (socket_transport_init rd wr fd) xs)
   \<and> \<not> eio_is_eof (run (stdio_transport_init rd wr) xs)"
proof -
  have a: "eio_is_eof (run u xs) = eio_is_eof u" for u
    using static_run [of u xs] by (simp add: static_def)
  have "read_ready s ReadIOError keep_open
     = (if eio_is_eof s then read_ready s (ReadData []) keep_open else Raises OSError s)"
    by (simp add: read_ready_def)
  moreover have "subprocess_transport_init rd wr env True window kw = Inr t \<longrightarrow> eio_is_eof (run t xs)"
    using subprocess_init_pty [of rd wr env window kw t] by (simp add: a)
  moreover have "subprocess_transport_init rd wr env False window kw = Inr t \<longrightarrow> \<not> eio_is_eof (run t xs)"
    using subprocess_init_pipes [of rd wr env window kw t] by (simp add: a)
  moreover have "\<not> eio_is_eof (run (socket_transport_init rd wr fd) xs)"
    by (simp add: a init_defs resume_reading_def)
  moreover have "\<not> eio_is_eof (run (stdio_transport_init rd wr) xs)"
    by (simp add: a init_defs resume_reading_def)
  ultimately show ?thesis by blast
qed

theorem C8_read_error_witness:
  "(\<exists>t. subprocess_transport_init {} {} pty_env True (Some (24, 80)) (Map.empty(''stderr'' \<mapsto> PIPE)) = Inr t
       \<and> eio_is_eof (run t [PauseReading, ResumeReading])
       \<and> raised (read_ready t ReadIOError True) = None
       \<and> trace (state_of (read_ready t ReadIOError True)) = [ConnectionMade, EofReceived])
   \<and> read_ready (socket_transport_init {} {} 3) ReadIOError True
       = Raises OSError (socket_transport_init {} {} 3)"
  using C8_read_error [of _ True "{}" "{}" pty_env "Some (24, 80)" "Map.empty(''stderr'' \<mapsto> PIPE)" _ "[PauseReading, ResumeReading]"]
        C8_read_error [of "socket_transport_init {} {} 3" True]
  by (simp add: pty_example pty_transport_def init_defs method_defs)

subsection \<open>Subprocess on a pseudo-terminal\<close>

text \<open>
  C10. On a subprocess transport built with a pseudo-terminal the \<^verbatim>\<open>stderr\<close> and
  \<^verbatim>\<open>stdin\<close> attributes of the process are \<^verbatim>\<open>None\<close> (the child got the subordinate
  side, not a pipe), and at any later time there is no spooler:
  \<^verbatim>\<open>get_stderr()\<close> returns the empty byte string and changes nothing,
  \<^verbatim>\<open>can_write_eof()\<close> is false, and \<^verbatim>\<open>_write_eof_now()\<close> returns without changing the
  transport, so \<^verbatim>\<open>out_fd\<close> stays as it is.
\<close>

theorem C10_pty_subprocess:
  assumes "subprocess_transport_init rd wr env True window kw = Inr t"
  shows "(\<exists>p. process (run t xs) = Some p \<and> stderr p = None \<and> stdin p = None)
         \<and> stderr_spooler (run t xs) = None
         \<and> get_stderr (run t xs) avail = ([], run t xs)
         \<and> can_write_eof (run t xs) = Inr False
         \<and> write_eof_now (run t xs) = Returns (run t xs)"
proof -
  from assms obtain p where
    t: "endpoint t = SubprocessTransport" "stderr_spooler t = None" "process t = Some p"
       "stdin p = None" "stderr p = None"
    using subprocess_init_pty [of rd wr env window kw t] by blast
  have "static (run t xs) = static t" by (rule static_run)
  with t have r: "endpoint (run t xs) = SubprocessTransport" "stderr_spooler (run t xs) = None"
      "process (run t xs) = Some p"
    by (simp_all add: static_def)
  show ?thesis using r t(4,5)
    by (simp add: get_stderr_def can_write_eof_def write_eof_now_def)
qed

theorem C10_pty_subprocess_witness:
  "\<exists>t. subprocess_transport_init {} {} pty_env True (Some (24, 80)) (Map.empty(''stderr'' \<mapsto> PIPE)) = Inr t
     \<and> get_stderr (run t [Write ''ls'' (Wrote 1), WriteEof]) [''never read''] = ([], run t [Write ''ls'' (Wrote 1), WriteEof])
     \<and> can_write_eof (run t [Write ''ls'' (Wrote 1), WriteEof]) = Inr False
     \<and> out_fd (state_of (write_eof_now (run t [Write ''ls'' (Wrote 1), WriteEof]))) = 5"
  using C10_pty_subprocess [of "{}" "{}" pty_env "Some (24, 80)" "Map.empty(''stderr'' \<mapsto> PIPE)" _
          "[Write ''ls'' (Wrote 1), WriteEof]" "[''never read'']"]
  by (simp add: pty_example pty_transport_def run_def step_def method_defs)

subsection \<open>The read registration\<close>




subsection \<open>Flow control\<close>



subsection \<open>End of the stream\<close>

text \<open>
  What \<^verbatim>\<open>_read_ready\<close> does on a zero-length read, in a state reached from a freshly
  constructed transport in which the loop calls it: \<^verbatim>\<open>eof_received\<close> has not been called
  before and is called once, reading has stopped and the in-fd is \<open>-1\<close>. If the answer
  is true the write side is as before. If it is false the result is that of \<^verbatim>\<open>close()\<close>,
  and \<^verbatim>\<open>connection_lost(None)\<close> follows at once when no queue is outstanding.
\<close>

lemma read_ready_zero_length:
  fixes self :: transport and i o_fd :: int and xs :: "op list" and keep_open :: bool
  defines "s \<equiv> run (transport_init self i o_fd) xs"
  defines "s1 \<equiv> (close_reader s)\<lparr>trace := trace s @ [EofReceived]\<rparr>"
  assumes "fresh self i" and "in_fd s \<in> readers s"
  shows "EofReceived \<notin> set (trace s)
         \<and> read_ready s (ReadData []) keep_open = Returns (if keep_open then s1 else close s1)
         \<and> \<not> is_reading s1 \<and> in_fd s1 = -1 \<and> in_fd s \<notin> readers s1
         \<and> \<not> closing s1 \<and> eof s1 = eof s \<and> queue s1 = queue s \<and> out_fd s1 = out_fd s
         \<and> (\<not> eof s \<longrightarrow> raised (transport_write s1 d (Wrote n)) = None)
         \<and> closing (close s1) \<and> queue (close s1) = queue s
         \<and> trace (close s1)
             = (if queue s = None then trace s @ [EofReceived, ConnectionLost None]
                else trace s @ [EofReceived])
         \<and> length (filter (\<lambda>e. e = EofReceived)
                     (trace (run (state_of (read_ready s (ReadData []) keep_open)) ys))) = 1"
proof -
  have inv: "inv_eof s"
    unfolding s_def using assms(3) by (intro inv_eof_run inv_eof_init)
  then have r: "inv_read s" by (simp add: inv_eof_def)
  from r assms(4) have rd: "is_reading s" "in_fd s \<noteq> -1" "\<not> closing s"
    by (auto simp: inv_read_def)
  from inv rd have no: "EofReceived \<notin> set (trace s)" by (auto simp: inv_eof_def)
  have rr: "read_ready s (ReadData []) keep_open = Returns (if keep_open then s1 else close s1)"
    by (simp add: read_ready_def s1_def Let_def)
  have f: "\<not> is_reading s1" "in_fd s1 = -1" "in_fd s \<notin> readers s1" "\<not> closing s1"
      "eof s1 = eof s" "queue s1 = queue s" "out_fd s1 = out_fd s" "trace s1 = trace s @ [EofReceived]"
    using rd by (simp_all add: s1_def)
  have w: "\<not> eof s \<longrightarrow> raised (transport_write s1 d (Wrote n)) = None"
    using f by (simp add: transport_write_def create_write_queue_def Let_def split: option.splits)
  have c: "closing (close s1)" "queue (close s1) = queue s"
      "trace (close s1) = (if queue s = None then trace s @ [EofReceived, ConnectionLost None]
                else trace s @ [EofReceived])"
    using f by simp_all
  have step: "state_of (read_ready s (ReadData []) keep_open) = step s (ReadReady (ReadData []) keep_open)"
    using assms(4) by (simp add: step_def)
  have inv': "inv_eof (state_of (read_ready s (ReadData []) keep_open))"
    unfolding step using inv by (rule inv_eof_step)
  have "EofReceived \<in> set (trace (state_of (read_ready s (ReadData []) keep_open)))"
    using f by (simp add: rr)
  with inv' have n: "length (filter (\<lambda>e. e = EofReceived)
                     (trace (run (state_of (read_ready s (ReadData []) keep_open)) ys))) = 1"
    by (rule count_eof_run)
  from no rr f(1-7) w c n show ?thesis by simp
qed

text \<open>
  C7 at a concrete input: a socket transport, paused and resumed, reads the end of the stream.
\<close>

text \<open>
  C7, at a failing input. A socket transport is given \<^verbatim>\<open>b"ab"\<close>, of which the kernel
  accepts one byte; the read then returns no bytes and \<^verbatim>\<open>eof_received()\<close> answers false.
  \<^verbatim>\<open>close()\<close> finds the queue and leaves the teardown to \<^verbatim>\<open>_write_ready\<close>, which
  raises \<^verbatim>\<open>TypeError\<close> each time the loop calls it: the transport stays closing with
  \<^verbatim>\<open>b"b"\<close> queued, and \<^verbatim>\<open>connection_lost\<close> does not follow.
\<close>

theorem C7_close_after_eof_never_completes:
  "dispatched (run (socket_transport_init {} {} 3) [Write ''ab'' (Wrote 1)])
      (ReadReady (ReadData []) False)
   \<and> fire (run (socket_transport_init {} {} 3)
             [Write ''ab'' (Wrote 1), ReadReady (ReadData []) False])
        (WriteReady (Failed TypeError))
      = Raises TypeError (run (socket_transport_init {} {} 3)
             [Write ''ab'' (Wrote 1), ReadReady (ReadData []) False])
   \<and> closing (run (socket_transport_init {} {} 3)
            ([Write ''ab'' (Wrote 1), ReadReady (ReadData []) False]
             @ replicate n (WriteReady (Failed TypeError))))
   \<and> queue (run (socket_transport_init {} {} 3)
            ([Write ''ab'' (Wrote 1), ReadReady (ReadData []) False]
             @ replicate n (WriteReady (Failed TypeError))))
      = Some [''b'']
   \<and> trace (run (socket_transport_init {} {} 3)
            ([Write ''ab'' (Wrote 1), ReadReady (ReadData []) False]
             @ replicate n (WriteReady (Failed TypeError))))
      = [ConnectionMade, PauseWriting, EofReceived]"
  unfolding run_append run_write_ready_as_written
  by (simp add: run_def step_def init_defs method_defs)

subsection \<open>Connection lost\<close>

text \<open>
  What holds of \<^verbatim>\<open>connection_lost\<close>: in a run in which the consumer does not call
  \<^verbatim>\<open>abort()\<close> after it has been delivered, it is delivered at most once, without an
  error, and no callback of the transport follows it. Each \<^verbatim>\<open>abort()\<close> delivers it
  once; \<^verbatim>\<open>close()\<close> on a transport that is not closing and has no queue delivers it
  once.
\<close>

lemma connection_lost_at_most_once:
  assumes "fresh self i" and "abort_not_repeated (transport_init self i o_fd) xs"
  shows "length (filter is_lost (trace (run (transport_init self i o_fd) xs))) \<le> 1
         \<and> lost_is_last (transport_events (trace (run (transport_init self i o_fd) xs)))
         \<and> (\<forall>e \<in> set (trace (run (transport_init self i o_fd) xs)).
               is_lost e \<longrightarrow> e = ConnectionLost None)
         \<and> trace (abort s)
             = trace s @ (if queue s \<noteq> None then [ResumeWriting] else []) @ [ConnectionLost None]
         \<and> (closing s \<longrightarrow> close s = s)
         \<and> (\<not> closing s \<and> queue s = None \<longrightarrow> trace (close s) = trace s @ [ConnectionLost None])"
proof -
  have inv: "inv_lost (run (transport_init self i o_fd) xs)"
    using assms by (intro inv_lost_run inv_lost_init)
  then have l: "lost_is_last (transport_events (trace (run (transport_init self i o_fd) xs)))"
    by (simp add: inv_lost_def)
  from lost_is_last_count [OF l]
  have n: "length (filter is_lost (trace (run (transport_init self i o_fd) xs))) \<le> 1"
    by (simp add: filter_lost_transport_events)
  have e: "\<forall>e \<in> set (trace (run (transport_init self i o_fd) xs)). is_lost e \<longrightarrow> e = ConnectionLost None"
    using inv by (simp add: inv_lost_def)
  have c: "closing s \<longrightarrow> close s = s" by (simp add: close_def)
  from n l e c show ?thesis by simp
qed

text \<open>
  C4 at a concrete input: a partial write, \<^verbatim>\<open>close()\<close> (deferred), \<^verbatim>\<open>abort()\<close>,
  \<^verbatim>\<open>close()\<close> again, and a late write-readiness callback.
\<close>

text \<open>
  C4, at two failing inputs. A socket transport is given \<^verbatim>\<open>b"ab"\<close>, of which the kernel
  accepts one byte, and is then closed: \<^verbatim>\<open>close()\<close> leaves the call of \<^verbatim>\<open>abort()\<close> to
  \<^verbatim>\<open>_write_ready\<close>, which raises \<^verbatim>\<open>TypeError\<close> each time the loop calls it, so
  \<^verbatim>\<open>connection_lost\<close> is not delivered. And \<^verbatim>\<open>abort()\<close> called twice delivers it
  twice.
\<close>

theorem C4_deferred_close_never_completes:
  "fire (run (socket_transport_init {} {} 3) [Write ''ab'' (Wrote 1), Close])
        (WriteReady (Failed TypeError))
      = Raises TypeError (run (socket_transport_init {} {} 3) [Write ''ab'' (Wrote 1), Close])
   \<and> closing (run (socket_transport_init {} {} 3)
            ([Write ''ab'' (Wrote 1), Close] @ replicate n (WriteReady (Failed TypeError))))
   \<and> queue (run (socket_transport_init {} {} 3)
            ([Write ''ab'' (Wrote 1), Close] @ replicate n (WriteReady (Failed TypeError))))
      = Some [''b'']
   \<and> trace (run (socket_transport_init {} {} 3)
            ([Write ''ab'' (Wrote 1), Close] @ replicate n (WriteReady (Failed TypeError))))
      = [ConnectionMade, PauseWriting]
   \<and> trace (run (socket_transport_init {} {} 3) [Abort, Abort])
      = [ConnectionMade, ConnectionLost None, ConnectionLost None]"
  unfolding run_append run_write_ready_as_written
  by (simp add: run_def step_def init_defs method_defs)

subsection \<open>Draining the write queue\<close>

text \<open>
  What the loop of \<^verbatim>\<open>_write_ready\<close> leaves is the queue without its first \<open>n\<close> bytes,
  and when it stops inside a block the remainder of that block is the new head. With the
  call as it is written the method raises and leaves the transport as it was.
\<close>

lemma consume_remainder:
  "consume n q = Inr (b, q') \<Longrightarrow> concat q' = drop n (concat q)"
  by (induction n q rule: consume.induct) (auto split: if_splits)

lemma consume_break_head:
  "consume n q = Inr (True, q') \<Longrightarrow> q' \<noteq> [] \<and> hd q' \<noteq> []"
  by (induction n q rule: consume.induct) (auto split: if_splits)

lemma write_ready_as_written:
  "queue s = Some q \<Longrightarrow> write_ready s (Failed TypeError) = Raises TypeError s"
  by (simp add: write_ready_def)

text \<open>
  Behind the \<^verbatim>\<open>TypeError\<close>, for the answers the call would get with the descriptor
  passed: when the bytes accepted end at the boundary of a block the loop ends with
  \<^verbatim>\<open>n_bytes\<close> at zero and its \<^verbatim>\<open>else\<close> branch removes the queue with the later blocks
  in it; and with write-EOF requested the \<^verbatim>\<open>else\<close> branch ends in the
  \<^verbatim>\<open>AttributeError\<close> of \<^verbatim>\<open>_consider_closing\<close>.
\<close>

lemma write_ready_behind_the_type_error:
  "write_ready (run (socket_transport_init {} {} 3) [Write ''xab'' (Wrote 1), Write ''cd'' (Wrote 0)])
      (Wrote 2)
     = Returns ((run (socket_transport_init {} {} 3) [Write ''xab'' (Wrote 1)])
                  \<lparr>oslog := [Accepted ''x'', Accepted ''ab''], queue := None, writers := {},
                   trace := [ConnectionMade, PauseWriting, ResumeWriting]\<rparr>)
   \<and> raised (write_ready (run (socket_transport_init {} {} 3) [Write ''xa'' (Wrote 1), WriteEof])
                (Wrote 1)) = Some AttributeError"
  by (simp add: run_def step_def init_defs method_defs consume_unfold)

text \<open>
  C1, at a failing input. A socket transport is given \<^verbatim>\<open>b"xab"\<close>, of which the kernel
  accepts one byte; \<^verbatim>\<open>b"ab"\<close> is queued and the out-fd registered. Each time the loop
  then calls \<^verbatim>\<open>_write_ready\<close> it raises \<^verbatim>\<open>TypeError\<close> and changes nothing: after any
  number of callbacks \<^verbatim>\<open>b"ab"\<close> is still queued and the kernel has accepted \<^verbatim>\<open>b"x"\<close>,
  not \<^verbatim>\<open>b"xab"\<close>.
\<close>

theorem C1_queued_bytes_never_written:
  "dispatched (run (socket_transport_init {} {} 3) [Write ''xab'' (Wrote 1)])
      (WriteReady (Failed TypeError))
   \<and> fire (run (socket_transport_init {} {} 3) [Write ''xab'' (Wrote 1)])
        (WriteReady (Failed TypeError))
      = Raises TypeError (run (socket_transport_init {} {} 3) [Write ''xab'' (Wrote 1)])
   \<and> queue (run (socket_transport_init {} {} 3)
              ([Write ''xab'' (Wrote 1)] @ replicate n (WriteReady (Failed TypeError))))
      = Some [''ab'']
   \<and> sent (oslog (run (socket_transport_init {} {} 3)
              ([Write ''xab'' (Wrote 1)] @ replicate n (WriteReady (Failed TypeError)))))
      = ''x''
   \<and> ''x'' \<noteq> concat [''xab'']"
  unfolding run_append run_write_ready_as_written
  by (simp add: run_def step_def init_defs method_defs)

text \<open>
  C2, at a failing input. A socket transport is given \<^verbatim>\<open>b"xa"\<close>, of which the kernel
  accepts one byte, and \<^verbatim>\<open>write_eof()\<close> is called: the half-close is deferred. Each time
  the loop then calls \<^verbatim>\<open>_write_ready\<close> it raises \<^verbatim>\<open>TypeError\<close>: after any number of
  callbacks \<^verbatim>\<open>b"a"\<close> is still queued and the socket has not been shut down.
\<close>

theorem C2_deferred_half_close_never_performed:
  "fire (run (socket_transport_init {} {} 3) [Write ''xa'' (Wrote 1), WriteEof])
        (WriteReady (Failed TypeError))
      = Raises TypeError (run (socket_transport_init {} {} 3) [Write ''xa'' (Wrote 1), WriteEof])
   \<and> eof (run (socket_transport_init {} {} 3)
            ([Write ''xa'' (Wrote 1), WriteEof] @ replicate n (WriteReady (Failed TypeError))))
   \<and> queue (run (socket_transport_init {} {} 3)
            ([Write ''xa'' (Wrote 1), WriteEof] @ replicate n (WriteReady (Failed TypeError))))
      = Some [''a'']
   \<and> oslog (run (socket_transport_init {} {} 3)
            ([Write ''xa'' (Wrote 1), WriteEof] @ replicate n (WriteReady (Failed TypeError))))
      = [Accepted ''x'']"
  unfolding run_append run_write_ready_as_written
  by (simp add: run_def step_def init_defs method_defs)

end
